theory Spec2Isabelle
  imports Complex_Main "HOL-Library.Multiset"
begin

section \<open>Characters and strings\<close>

text \<open>
  A Python \<open>str\<close> is a sequence of Unicode code points; a character is modelled by its
  code point, a string by the list of its code points.
\<close>

type_synonym uchar = nat
type_synonym ustr = "uchar list"

definition ascii :: "string \<Rightarrow> ustr" where
  "ascii s = map of_char s"

text \<open>
  \<open>str.replace(old, new)\<close>: every non-overlapping occurrence of \<open>old\<close>, found from the
  left, is replaced by \<open>new\<close>. With an empty \<open>old\<close>, \<open>new\<close> is put before every character
  and at the end.
\<close>

function replace :: "'a list \<Rightarrow> 'a list \<Rightarrow> 'a list \<Rightarrow> 'a list" where
  "replace old new [] = (if old = [] then new else [])"
| "replace old new (c # cs) =
     (if old = [] then new @ c # replace old new cs
      else if take (length old) (c # cs) = old
           then new @ replace old new (drop (length old) (c # cs))
           else c # replace old new cs)"
  by pat_completeness auto
termination
  by (relation "measure (\<lambda>(old, new, s). length s)") auto

section \<open>Alphabet Builder\<close>

text \<open>The constant \<open>string.printable\<close> of the Python standard library.\<close>

definition printable :: ustr where
  "printable =
     ascii ''0123456789abcdefghijklmnopqrstuvwxyzABCDEFGHIJKLMNOPQRSTUVWXYZ''
     @ [0x21, 0x22, 0x23, 0x24, 0x25, 0x26, 0x27, 0x28, 0x29, 0x2A, 0x2B, 0x2C, 0x2D, 0x2E, 0x2F]
     @ [0x3A, 0x3B, 0x3C, 0x3D, 0x3E, 0x3F, 0x40]
     @ [0x5B, 0x5C, 0x5D, 0x5E, 0x5F, 0x60]
     @ [0x7B, 0x7C, 0x7D, 0x7E]
     @ [0x20, 0x09, 0x0A, 0x0D, 0x0B, 0x0C]"

definition uppercase :: ustr where
  "uppercase = ascii ''ABCDEFGHIJKLMNOPQRSTUVWXYZ''"

definition punct_block :: ustr where
  "punct_block = [0x5B, 0x5C, 0x5D, 0x5E, 0x5F, 0x60, 0x7B, 0x7C, 0x7D, 0x7E]"

definition white_ctrl :: ustr where
  "white_ctrl = [0x09, 0x0A, 0x0D, 0x0B, 0x0C]"

definition generate_alphabet :: ustr where
  "generate_alphabet =
     replace (ascii ''*+'') []
       (replace (ascii '';<=>'') []
         (replace white_ctrl []
           (replace punct_block []
             (replace uppercase [] printable))))"

section \<open>Text Normalizer\<close>

text \<open>
  The characters Python counts as whitespace (\<open>str.isspace\<close>): the class \<open>\s\<close> of a
  \<open>str\<close> pattern and the characters \<open>str.strip()\<close> removes.
\<close>

definition is_space :: "uchar \<Rightarrow> bool" where
  "is_space c =
     ((9 \<le> c \<and> c \<le> 13) \<or> (28 \<le> c \<and> c \<le> 32) \<or> c = 0x85 \<or> c = 0xA0 \<or> c = 0x1680
      \<or> (0x2000 \<le> c \<and> c \<le> 0x200A) \<or> c = 0x2028 \<or> c = 0x2029 \<or> c = 0x202F
      \<or> c = 0x205F \<or> c = 0x3000)"

definition is_digit :: "uchar \<Rightarrow> bool" where
  "is_digit c = (0x30 \<le> c \<and> c \<le> 0x39)"

text \<open>
  The class \<open>\w\<close> of a \<open>str\<close> pattern: the alphanumeric characters of Unicode and the
  underscore. On ASCII these are the letters and digits. The table of the alphanumeric
  characters beyond ASCII belongs to the Unicode database and is the parameter \<open>ualnum\<close>.
\<close>

definition is_word :: "(uchar \<Rightarrow> bool) \<Rightarrow> uchar \<Rightarrow> bool" where
  "is_word ualnum c =
     (if c < 128
      then (0x30 \<le> c \<and> c \<le> 0x39) \<or> (0x41 \<le> c \<and> c \<le> 0x5A) \<or> (0x61 \<le> c \<and> c \<le> 0x7A) \<or> c = 0x5F
      else ualnum c)"

text \<open>The table that knows no alphanumeric character beyond ASCII.\<close>

definition ascii_alnum :: "uchar \<Rightarrow> bool" where
  "ascii_alnum c = False"

text \<open>
  \<open>re.sub(pattern, repl, s)\<close>: the string is scanned from the left; where the pattern
  matches, the match is replaced by \<open>repl\<close> and the scan goes on behind it; elsewhere the
  character is kept. The pattern is given by its matcher \<open>m\<close>: applied to the rest of the
  string, it returns the length of the match that starts there, or \<open>None\<close>. An empty match
  is replaced and the character behind it kept.
\<close>

function re_sub :: "('a list \<Rightarrow> nat option) \<Rightarrow> 'a list \<Rightarrow> 'a list \<Rightarrow> 'a list" where
  "re_sub m repl [] = (case m [] of Some n \<Rightarrow> repl | None \<Rightarrow> [])"
| "re_sub m repl (c # cs) =
     (case m (c # cs) of
        None \<Rightarrow> c # re_sub m repl cs
      | Some 0 \<Rightarrow> repl @ c # re_sub m repl cs
      | Some (Suc n) \<Rightarrow> repl @ re_sub m repl (drop n cs))"
  by pat_completeness auto
termination
  by (relation "measure (\<lambda>(m, repl, s). length s)") auto

text \<open>\<open>@[0-9]+\<close>: an at sign and the longest run of digits behind it, at least one.\<close>

fun m_ref_id :: "ustr \<Rightarrow> nat option" where
  "m_ref_id [] = None"
| "m_ref_id (c # cs) =
     (if c = 0x40 \<and> takeWhile is_digit cs \<noteq> [] then Some (1 + length (takeWhile is_digit cs))
      else None)"

text \<open>
  \<open>(\^\w*)$\<close>: a caret and the longest run of word characters behind it, where the
  string ends or only its final newline follows. A shorter run of word characters is
  followed by a word character, so backtracking finds no other match.
\<close>

fun m_signature :: "(uchar \<Rightarrow> bool) \<Rightarrow> ustr \<Rightarrow> nat option" where
  "m_signature ualnum [] = None"
| "m_signature ualnum (c # cs) =
     (if c = 0x5E \<and> (dropWhile (is_word ualnum) cs = [] \<or> dropWhile (is_word ualnum) cs = [0x0A])
      then Some (1 + length (takeWhile (is_word ualnum) cs))
      else None)"

text \<open>\<open>\([0-9]/[0-9]\)\<close>: five characters, as in \<open>(1/2)\<close>.\<close>

fun m_part_marker :: "ustr \<Rightarrow> nat option" where
  "m_part_marker (a # b # c # d # e # cs) =
     (if a = 0x28 \<and> is_digit b \<and> c = 0x2F \<and> is_digit d \<and> e = 0x29 then Some 5 else None)"
| "m_part_marker cs = None"

text \<open>
  \<open>https?://\S+|www\.\S+\<close>: the first alternative is tried first; behind the prefix,
  the longest run of characters that are not whitespace, at least one.
\<close>

definition m_prefixed :: "ustr \<Rightarrow> ustr \<Rightarrow> nat option" where
  "m_prefixed p s =
     (if take (length p) s = p \<and> takeWhile (\<lambda>c. \<not> is_space c) (drop (length p) s) \<noteq> []
      then Some (length p + length (takeWhile (\<lambda>c. \<not> is_space c) (drop (length p) s)))
      else None)"

definition m_url :: "ustr \<Rightarrow> nat option" where
  "m_url s =
     (case m_prefixed (ascii ''https://'') s of Some n \<Rightarrow> Some n
      | None \<Rightarrow>
     (case m_prefixed (ascii ''http://'') s of Some n \<Rightarrow> Some n
      | None \<Rightarrow> m_prefixed (ascii ''www.'') s))"

text \<open>\<open> +\<close>: the longest run of spaces, at least one.\<close>

definition m_spaces :: "ustr \<Rightarrow> nat option" where
  "m_spaces s =
     (if takeWhile (\<lambda>c. c = 0x20) s \<noteq> [] then Some (length (takeWhile (\<lambda>c. c = 0x20) s)) else None)"

text \<open>\<open>str.strip()\<close>: the whitespace at both ends is removed.\<close>

definition strip :: "ustr \<Rightarrow> ustr" where
  "strip s = rev (dropWhile is_space (rev (dropWhile is_space s)))"

text \<open>The last two steps of every cleaning function: \<open>re.sub(' +', ' ', s).strip()\<close>.\<close>

definition collapse_strip :: "ustr \<Rightarrow> ustr" where
  "collapse_strip s = strip (re_sub m_spaces [0x20] s)"

text \<open>The anonymisation character of URLs and the out-of-alphabet marker of questions.\<close>

definition url_char :: uchar where
  "url_char = 0xA7"

definition oov_char :: uchar where
  "oov_char = 0xFC"

text \<open>
  The steps of \<open>clean_text\<close> before the two regular expressions that anonymise and
  the final collapsing, in the order of the source.
\<close>

definition clean_chars :: "ustr \<Rightarrow> ustr" where
  "clean_chars =
     replace [0x201C] [0x27] \<circ> replace [0x201D] [0x27] \<circ> replace [0x2019] [0x27]
     \<circ> replace [0x60] [0x27] \<circ> replace [0xB4] [0x27] \<circ> replace [0x2018] [0x27]
     \<circ> replace [0x2018] [0x27] \<circ> replace [0x3B] [0x2C]
     \<circ> replace [0x200D] [0x20] \<circ> replace [0x200B] [0x20] \<circ> replace [0x0C] [0x20]
     \<circ> replace [0x0B] [0x20] \<circ> replace [0x0D] [0x20] \<circ> replace [0x0A] [0x20]
     \<circ> replace [0x09] [0x20]"

definition clean_brackets :: "ustr \<Rightarrow> ustr" where
  "clean_brackets =
     replace [0x5C, 0x5D] [0x5C, 0x29] \<circ> replace [0x5C, 0x5B] [0x5C, 0x28]
     \<circ> replace [0x5C, 0x7D] [0x5C, 0x29] \<circ> replace [0x5C, 0x7B] [0x5C, 0x28]"

definition clean_mentions :: "(uchar \<Rightarrow> bool) \<Rightarrow> ustr \<Rightarrow> ustr" where
  "clean_mentions ualnum =
     re_sub m_part_marker []
     \<circ> replace [0x200D, 0x2640, 0xFE0F] [] \<circ> replace [0x200D, 0x2642, 0xFE0F] []
     \<circ> re_sub (m_signature ualnum) [] \<circ> re_sub m_ref_id []
     \<circ> replace (ascii ''@amazonhelp'') [] \<circ> replace (ascii ''&amp;'') (ascii ''&'')"

definition clean_text :: "(uchar \<Rightarrow> bool) \<Rightarrow> ustr \<Rightarrow> ustr" where
  "clean_text ualnum tweet =
     collapse_strip (re_sub m_url [url_char]
       (clean_mentions ualnum (clean_brackets (clean_chars tweet))))"

section \<open>Alphabet Projector\<close>

definition process_x_text :: "ustr \<Rightarrow> ustr \<Rightarrow> ustr" where
  "process_x_text tweet alphabet =
     collapse_strip (map (\<lambda>c. if c \<in> set alphabet then c else oov_char) tweet)"

definition process_y_text :: "ustr \<Rightarrow> ustr \<Rightarrow> ustr" where
  "process_y_text tweet alphabet =
     collapse_strip (map (\<lambda>c. if c \<in> set alphabet then c else 0x20) tweet)"

section \<open>Language check\<close>

text \<open>\<open>sub in s\<close> on strings: \<open>sub\<close> occurs in \<open>s\<close> as a contiguous substring.\<close>

fun contains :: "'a list \<Rightarrow> 'a list \<Rightarrow> bool" where
  "contains sub [] = (sub = [])"
| "contains sub (c # cs) = (take (length sub) (c # cs) = sub \<or> contains sub cs)"

definition remove_for_langdetect :: "ustr list" where
  "remove_for_langdetect =
     [ascii ''amazon fire tv stick'', ascii ''fire tv stick'', ascii ''amazonfiretvstick'',
      ascii ''amazonmusicunlimited'', ascii ''amazon kindle unlimited'',
      ascii ''amazon echo dot'', ascii ''prime music'']"

text \<open>
  The detector of the \<open>langdetect\<close> package is a parameter: it returns a language tag
  (\<open>Inr\<close>) or raises (\<open>Inl\<close>, with whatever exception it is).
\<close>

text \<open>The text handed to the detector: the product names are cut out first.\<close>

definition langdetect_input :: "ustr \<Rightarrow> ustr" where
  "langdetect_input tweet =
     (if list_ex (\<lambda>element. contains element tweet) remove_for_langdetect
      then fold (\<lambda>element t. replace element [] t) remove_for_langdetect tweet
      else tweet)"

definition check_language :: "(ustr \<Rightarrow> 'e + ustr) \<Rightarrow> ustr \<Rightarrow> ustr" where
  "check_language detect tweet =
     (case detect (langdetect_input tweet) of Inr lang \<Rightarrow> lang | Inl e \<Rightarrow> ascii ''en'')"

section \<open>Pair Reconstructor\<close>

text \<open>
  A row of the message table (the column \<open>text\<close> is the field \<open>text_col\<close>). The column \<open>in_response_to_tweet_id\<close> is empty (NaN) for a
  message that answers no other.
\<close>

record message =
  tweet_id :: int
  author_id :: ustr
  inbound :: bool
  text_col :: ustr
  in_response_to_tweet_id :: "int option"

definition endswith :: "'a list \<Rightarrow> 'a list \<Rightarrow> bool" where
  "endswith s suf = (length suf \<le> length s \<and> drop (length s - length suf) s = suf)"

text \<open>
  The first steps of \<open>organize_QA_dataframe\<close>, before the columns other than the two
  texts are dropped: the customers' tweets that started a chat, the inner join with the
  tweets that answer them (the rows in the order of the left keys), and the filter on
  the company.
\<close>

definition starters :: "message list \<Rightarrow> message list" where
  "starters df = filter (\<lambda>m. inbound m \<and> in_response_to_tweet_id m = None) df"

definition merge_replies :: "message list \<Rightarrow> message list \<Rightarrow> (message \<times> message) list" where
  "merge_replies left df =
     concat (map (\<lambda>q. map (\<lambda>a. (q, a))
       (filter (\<lambda>a. in_response_to_tweet_id a = Some (tweet_id q)) df)) left)"

definition paired_messages :: "message list \<Rightarrow> (message \<times> message) list" where
  "paired_messages df =
     filter (\<lambda>(q, a). author_id a = ascii ''AmazonHelp'') (merge_replies (starters df) df)"

text \<open>
  The rest of \<open>organize_QA_dataframe\<close> on the columns \<open>text_x\<close> and \<open>text_y\<close>.
  \<open>str.lower\<close> depends on the Unicode database and is the parameter \<open>lower\<close>.
\<close>

definition organize_QA_dataframe ::
  "(ustr \<Rightarrow> ustr) \<Rightarrow> (ustr \<Rightarrow> 'e + ustr) \<Rightarrow> (uchar \<Rightarrow> bool) \<Rightarrow> message list \<Rightarrow> ustr
   \<Rightarrow> (ustr \<times> ustr) list" where
  "organize_QA_dataframe lower detect ualnum df alphabet =
     (let exchanges = map (\<lambda>(q, a). (text_col q, text_col a)) (paired_messages df);
          exchanges = map (\<lambda>(x, y). (lower x, lower y)) exchanges;
          exchanges = filter (\<lambda>(x, y). check_language detect x = ascii ''en''
                                        \<and> check_language detect y = ascii ''en'') exchanges;
          exchanges = filter (\<lambda>(x, y). \<not> endswith y (ascii ''(1/2)'')
                                        \<and> \<not> endswith y (ascii ''(2/2)'')) exchanges;
          exchanges = map (\<lambda>(x, y). (clean_text ualnum x, clean_text ualnum y)) exchanges
      in map (\<lambda>(x, y). (process_x_text x alphabet, process_y_text y alphabet)) exchanges)"

text \<open>Lowercasing of the ASCII letters only: what \<open>str.lower\<close> does on ASCII text.\<close>

definition ascii_lower :: "ustr \<Rightarrow> ustr" where
  "ascii_lower s = map (\<lambda>c. if 0x41 \<le> c \<and> c \<le> 0x5A then c + 32 else c) s"

section \<open>Vectorizer\<close>

datatype error = ValueError

text \<open>The dictionary \<open>{ char[1]: char[0] for char in enumerate(alphabet, 1) }\<close>.\<close>

definition mk_char2idx :: "ustr \<Rightarrow> (uchar \<rightharpoonup> int)" where
  "mk_char2idx alphabet =
     fold (\<lambda>(i, c) m. m(c \<mapsto> int i)) (enumerate 1 alphabet) Map.empty"

definition vectorize_tweet :: "ustr \<Rightarrow> (uchar \<rightharpoonup> int) \<Rightarrow> int list" where
  "vectorize_tweet tweet char2idx =
     map (\<lambda>c. case char2idx c of Some i \<Rightarrow> i | None \<Rightarrow> 0) tweet"

text \<open>
  \<open>max(rows, key=len)\<close>: the first of the longest rows; \<open>ValueError\<close> on an empty list.
\<close>

fun max_key_len :: "'a list list \<Rightarrow> error + 'a list" where
  "max_key_len [] = Inl ValueError"
| "max_key_len (r # rs) =
     Inr (fold (\<lambda>x best. if length best < length x then x else best) rs r)"

text \<open>
  \<open>np.concatenate([np.zeros(max_length - len(q)), q])\<close>; \<open>np.zeros\<close> raises
  \<open>ValueError\<close> on a negative dimension.
\<close>

definition left_pad :: "nat \<Rightarrow> int list \<Rightarrow> error + int list" where
  "left_pad max_length q =
     (if length q \<le> max_length then Inr (replicate (max_length - length q) 0 @ q)
      else Inl ValueError)"

text \<open>A list comprehension over a function that may raise: the first error ends it.\<close>

fun map_err :: "('a \<Rightarrow> error + 'b) \<Rightarrow> 'a list \<Rightarrow> error + 'b list" where
  "map_err f [] = Inr []"
| "map_err f (x # xs) =
     (case f x of Inl e \<Rightarrow> Inl e
      | Inr y \<Rightarrow> (case map_err f xs of Inl e \<Rightarrow> Inl e | Inr ys \<Rightarrow> Inr (y # ys)))"

text \<open>\<open>np.stack\<close>: the rows must be there and have one shape.\<close>

definition stack :: "'a list list \<Rightarrow> error + 'a list list" where
  "stack rows =
     (case rows of [] \<Rightarrow> Inl ValueError
      | r # rs \<Rightarrow> if list_all (\<lambda>x. length x = length r) rs then Inr rows else Inl ValueError)"

text \<open>
  The conversion of a stored integer to the matrices' element type (\<open>np.float32\<close>) is
  the parameter \<open>cast\<close>.
\<close>

definition vectorize_dataset ::
  "(int \<Rightarrow> 'v) \<Rightarrow> (ustr \<times> ustr) list \<Rightarrow> (uchar \<rightharpoonup> int)
   \<Rightarrow> error + ('v list list \<times> 'v list list)" where
  "vectorize_dataset cast df char2idx =
     (let Q = map (\<lambda>(x, y). vectorize_tweet x char2idx) df;
          A = map (\<lambda>(x, y). vectorize_tweet y char2idx) df
      in case max_key_len Q of Inl e \<Rightarrow> Inl e | Inr mq \<Rightarrow>
         (case max_key_len A of Inl e \<Rightarrow> Inl e | Inr ma \<Rightarrow>
         (let max_length = max (length mq) (length ma)
          in case map_err (left_pad max_length) Q of Inl e \<Rightarrow> Inl e | Inr Qp \<Rightarrow>
             (case map_err (left_pad max_length) A of Inl e \<Rightarrow> Inl e | Inr Ap \<Rightarrow>
             (case stack Qp of Inl e \<Rightarrow> Inl e | Inr Qs \<Rightarrow>
             (case stack Ap of Inl e \<Rightarrow> Inl e | Inr As \<Rightarrow>
                Inr (map (map cast) Qs, map (map cast) As)))))))"

section \<open>Train, validation and test split\<close>

text \<open>
  Python's \<open>float\<close> is IEEE binary64. A finite float is modelled by the rational number it
  stands for, and an operation by the exact operation followed by \<open>fl\<close>, the rounding
  to the nearest float, ties to the even significand (53 bits; below \<open>2 ^ - 1022\<close> the
  spacing stays \<open>2 ^ - 1074\<close>). Overflow to infinity is outside the model.
\<close>

definition rne :: "rat \<Rightarrow> int" where
  "rne r =
     (let f = \<lfloor>r\<rfloor>; d = r - of_int f
      in if d < 1 / 2 then f else if 1 / 2 < d then f + 1 else if even f then f else f + 1)"

text \<open>The number of binary digits of a positive integer.\<close>

function bits :: "int \<Rightarrow> int" where
  "bits n = (if n \<le> 0 then 0 else 1 + bits (n div 2))"
  by pat_completeness auto
termination
  by (relation "measure nat") auto

text \<open>The binary exponent of a positive rational: \<open>2 powi expo x \<le> x < 2 powi (expo x + 1)\<close>.\<close>

definition expo :: "rat \<Rightarrow> int" where
  "expo x =
     (if 1 \<le> x then bits \<lfloor>x\<rfloor> - 1
      else let k = bits \<lfloor>1 / x\<rfloor> - 1 in if 2 powi (- k) \<le> x then - k else - k - 1)"

definition ulp :: "rat \<Rightarrow> rat" where
  "ulp x = 2 powi (max (expo \<bar>x\<bar>) (- 1022) - 52)"

definition fl :: "rat \<Rightarrow> rat" where
  "fl x = sgn x * (of_int (rne (\<bar>x\<bar> / ulp x)) * ulp x)"

definition fadd :: "rat \<Rightarrow> rat \<Rightarrow> rat" where
  "fadd x y = fl (x + y)"

definition fsub :: "rat \<Rightarrow> rat \<Rightarrow> rat" where
  "fsub x y = fl (x - y)"

definition fmul :: "rat \<Rightarrow> rat \<Rightarrow> rat" where
  "fmul x y = fl (x * y)"

text \<open>\<open>int(x)\<close> on a float: the fractional part is cut off, towards zero.\<close>

definition py_int :: "rat \<Rightarrow> int" where
  "py_int x = (if 0 \<le> x then \<lfloor>x\<rfloor> else \<lceil>x\<rceil>)"

text \<open>
  A slice \<open>xs[a:b]\<close> and \<open>xs[a:]\<close> along the first axis: a negative bound counts from the
  end, and every bound is clipped to the length.
\<close>

definition slice_index :: "int \<Rightarrow> nat \<Rightarrow> nat" where
  "slice_index i n = (if i < 0 then nat (max (i + int n) 0) else min (nat i) n)"

definition slice :: "int \<Rightarrow> int \<Rightarrow> 'a list \<Rightarrow> 'a list" where
  "slice a b xs =
     (let i = slice_index a (length xs); j = slice_index b (length xs)
      in take (j - i) (drop i xs))"

definition slice_from :: "int \<Rightarrow> 'a list \<Rightarrow> 'a list" where
  "slice_from a xs = drop (slice_index a (length xs)) xs"

text \<open>
  \<open>sklearn.utils.shuffle(Q, A, random_state = seed)\<close> raises \<open>ValueError\<close> when the two
  arrays differ in their number of rows, and otherwise reorders both by one permutation
  of the row indices. The permutation drawn for a seed and a number of rows is the
  parameter \<open>shuffle\<close>.
\<close>

text \<open>
  The two cutoffs, \<open>int(Q.shape[0] * (1 - (val_size + test_size)))\<close> and
  \<open>int(Q.shape[0] * (1 - test_size))\<close>: the number of rows becomes a float, and every
  operation rounds.
\<close>

definition train_val_cutoff :: "nat \<Rightarrow> rat \<Rightarrow> rat \<Rightarrow> int" where
  "train_val_cutoff n val_size test_size =
     py_int (fmul (fl (of_nat n)) (fsub 1 (fadd val_size test_size)))"

definition val_test_cutoff :: "nat \<Rightarrow> rat \<Rightarrow> int" where
  "val_test_cutoff n test_size = py_int (fmul (fl (of_nat n)) (fsub 1 test_size))"

definition train_test_val_split ::
  "('s \<Rightarrow> nat \<Rightarrow> nat list) \<Rightarrow> 'a list \<Rightarrow> 'b list \<Rightarrow> rat \<Rightarrow> rat \<Rightarrow> 's
   \<Rightarrow> error + ('a list \<times> 'b list \<times> 'a list \<times> 'b list \<times> 'a list \<times> 'b list)" where
  "train_test_val_split shuffle Q A val_size test_size seed =
     (if length Q \<noteq> length A then Inl ValueError
      else
        let perm = shuffle seed (length Q);
            Q = map (\<lambda>i. Q ! i) perm;
            A = map (\<lambda>i. A ! i) perm;
            a = train_val_cutoff (length Q) val_size test_size;
            b = val_test_cutoff (length Q) test_size
        in Inr (slice 0 a Q, slice 0 a A, slice a b Q, slice a b A,
                slice_from b Q, slice_from b A))"

section \<open>Dataset Assembler\<close>

text \<open>
  The parameters of a run. The table is read from \<open>data_path\<close> before anything else;
  the model starts from the table.
\<close>

record 's params =
  val_test_size :: "rat \<times> rat"
  seed :: 's

definition expand_dims :: "'v list list \<Rightarrow> 'v list list list" where
  "expand_dims M = map (map (\<lambda>v. [v])) M"

definition get_amazon_dataset ::
  "(ustr \<Rightarrow> ustr) \<Rightarrow> (ustr \<Rightarrow> 'e + ustr) \<Rightarrow> (uchar \<Rightarrow> bool) \<Rightarrow> ('s \<Rightarrow> nat \<Rightarrow> nat list) \<Rightarrow> (int \<Rightarrow> 'v)
   \<Rightarrow> 's params \<Rightarrow> message list
   \<Rightarrow> error + ('v list list \<times> 'v list list list \<times> 'v list list \<times> 'v list list list
               \<times> 'v list list \<times> 'v list list list \<times> (uchar \<rightharpoonup> int))" where
  "get_amazon_dataset lower detect ualnum shuffle cast params df =
     (let alphabet = generate_alphabet;
          char2idx = mk_char2idx alphabet;
          df = organize_QA_dataframe lower detect ualnum df alphabet
      in case vectorize_dataset cast df char2idx of Inl e \<Rightarrow> Inl e | Inr (Q, A) \<Rightarrow>
         (case train_test_val_split shuffle Q A (fst (val_test_size params))
                 (snd (val_test_size params)) (seed params) of
            Inl e \<Rightarrow> Inl e
          | Inr (Q_train, A_train, Q_val, A_val, Q_test, A_test) \<Rightarrow>
              Inr (Q_train, expand_dims A_train, Q_val, expand_dims A_val,
                   Q_test, expand_dims A_test, char2idx)))"

section \<open>Predicates of the specification\<close>

text \<open>No two spaces in a row.\<close>

fun no_double_space :: "ustr \<Rightarrow> bool" where
  "no_double_space (a # b # cs) = ((a \<noteq> 0x20 \<or> b \<noteq> 0x20) \<and> no_double_space (b # cs))"
| "no_double_space cs = True"

text \<open>No whitespace at either end.\<close>

definition trimmed :: "ustr \<Rightarrow> bool" where
  "trimmed s = (s = [] \<or> (\<not> is_space (hd s) \<and> \<not> is_space (last s)))"


text \<open>The longest of the texts of a table, over both columns.\<close>

definition max_text_length :: "(ustr \<times> ustr) list \<Rightarrow> nat" where
  "max_text_length df = Max (set (map (\<lambda>(x, y). max (length x) (length y)) df))"

section \<open>An example table\<close>

text \<open>
  Four messages: a customer's question with the company's answer, a question nobody
  answered, and an answer to a message that is not in the table.
\<close>

definition example_question :: message where
  "example_question =
     \<lparr>tweet_id = 1, author_id = ascii ''115712'', inbound = True,
      text_col = ascii ''Where is my ORDER?  see https://t.co/abc'', in_response_to_tweet_id = None\<rparr>"

definition example_answer :: message where
  "example_answer =
     \<lparr>tweet_id = 2, author_id = ascii ''AmazonHelp'', inbound = False,
      text_col = ascii ''@115712 Sorry for the delay! ^AB'', in_response_to_tweet_id = Some 1\<rparr>"

definition example_table :: "message list" where
  "example_table =
     [example_question, example_answer,
      \<lparr>tweet_id = 3, author_id = ascii ''115713'', inbound = True,
       text_col = ascii ''anyone there'', in_response_to_tweet_id = None\<rparr>,
      \<lparr>tweet_id = 4, author_id = ascii ''AmazonHelp'', inbound = False,
       text_col = ascii ''we are here'', in_response_to_tweet_id = Some 99\<rparr>]"

text \<open>A detector that knows English only, and one that always raises.\<close>

definition detect_en :: "ustr \<Rightarrow> unit + ustr" where
  "detect_en t = Inr (ascii ''en'')"

definition detect_fails :: "ustr \<Rightarrow> unit + ustr" where
  "detect_fails t = Inl ()"

section \<open>Notions for the analysis of the Text Normalizer\<close>




section \<open>Properties of the Alphabet Builder\<close>

lemma generate_alphabet_value:
  "generate_alphabet =
     ascii ''0123456789abcdefghijklmnopqrstuvwxyz'' @
     [0x21, 0x22, 0x23, 0x24, 0x25, 0x26, 0x27, 0x28, 0x29, 0x2C, 0x2D, 0x2E, 0x2F, 0x3A, 0x3F, 0x40, 0x20]"
  by (simp add: generate_alphabet_def printable_def uppercase_def punct_block_def white_ctrl_def
      ascii_def)

lemma generate_alphabet_distinct: "distinct generate_alphabet"
  by (simp add: generate_alphabet_value ascii_def)

lemma generate_alphabet_set:
  "set generate_alphabet =
     set printable - (set uppercase \<union> set punct_block \<union> set white_ctrl
                      \<union> set (ascii '';<=>'') \<union> set (ascii ''*+''))"
proof -
  have "set printable - (set uppercase \<union> set punct_block \<union> set white_ctrl
                      \<union> set (ascii '';<=>'') \<union> set (ascii ''*+''))
      = set (filter (\<lambda>x. x \<notin> set (uppercase @ punct_block @ white_ctrl @ ascii '';<=>'' @ ascii ''*+'')) printable)"
    by auto
  also have "filter (\<lambda>x. x \<notin> set (uppercase @ punct_block @ white_ctrl @ ascii '';<=>'' @ ascii ''*+'')) printable = generate_alphabet"
    by (simp add: generate_alphabet_value printable_def uppercase_def punct_block_def
      white_ctrl_def ascii_def)
  finally show ?thesis by simp
qed

text \<open>
  C2. \<open>generate_alphabet\<close> takes no argument and is one fixed string: the digits, the
  lowercase letters, \<open>! " # $ % & ' ( ) , - . / : ? @\<close> and the space, in this order.
  No character occurs twice, and its characters are those of \<open>string.printable\<close> but the
  26 uppercase letters, the block \<open>[ \ ] ^ _ ` { | } ~\<close>, tab, LF, CR, vertical tab and
  form feed, \<open>; < = >\<close> and \<open>* +\<close>. The space is a member.
\<close>

theorem generate_alphabet_contents:
  "generate_alphabet =
     ascii ''0123456789abcdefghijklmnopqrstuvwxyz'' @
     [0x21, 0x22, 0x23, 0x24, 0x25, 0x26, 0x27, 0x28, 0x29, 0x2C, 0x2D, 0x2E, 0x2F, 0x3A, 0x3F, 0x40, 0x20]
   \<and> distinct generate_alphabet
   \<and> set generate_alphabet =
       set printable - (set uppercase \<union> set punct_block \<union> set white_ctrl
                        \<union> set (ascii '';<=>'') \<union> set (ascii ''*+''))
   \<and> 0x20 \<in> set generate_alphabet"
proof -
  have "0x20 \<in> set generate_alphabet"
    by (simp add: generate_alphabet_def printable_def uppercase_def punct_block_def white_ctrl_def
      ascii_def)
  then show ?thesis
    using generate_alphabet_value generate_alphabet_distinct generate_alphabet_set by blast
qed

section \<open>Evaluation\<close>

text \<open>The equations that evaluate the text functions on a given string.\<close>

lemmas text_eval =
  ascii_def is_space_def is_digit_def is_word_def ascii_alnum_def url_char_def oov_char_def
  m_spaces_def m_prefixed_def m_url_def re_sub.simps strip_def collapse_strip_def
  clean_chars_def clean_brackets_def clean_mentions_def clean_text_def
  process_x_text_def process_y_text_def trimmed_def

section \<open>Collapsing spaces and trimming\<close>

lemma collapse_Nil: "re_sub m_spaces [0x20] [] = []"
  by (simp add: m_spaces_def)

declare re_sub.simps [simp del]

lemma collapse_Cons:
  "re_sub m_spaces [0x20] (c # cs) =
     (if c = 0x20 then 0x20 # re_sub m_spaces [0x20] (dropWhile (\<lambda>c. c = 0x20) cs)
      else c # re_sub m_spaces [0x20] cs)"
proof (cases "c = 0x20")
  case False
  then show ?thesis by (simp add: m_spaces_def re_sub.simps)
next
  case True
  have "drop (length (takeWhile (\<lambda>c. c = (0x20::nat)) cs)) cs = dropWhile (\<lambda>c. c = 0x20) cs"
    by (rule dropWhile_eq_drop [symmetric])
  with True show ?thesis by (simp add: m_spaces_def re_sub.simps)
qed

lemma set_collapse: "set (re_sub m_spaces [0x20] s) \<subseteq> set s"
proof (induction s rule: length_induct)
  case (1 s)
  show ?case
  proof (cases s)
    case Nil
    then show ?thesis by (simp add: collapse_Nil)
  next
    case (Cons c cs)
    have "length (dropWhile (\<lambda>c. c = (0x20::nat)) cs) < length s"
      using Cons by (simp add: length_dropWhile_le le_imp_less_Suc)
    then have a: "set (re_sub m_spaces [0x20] (dropWhile (\<lambda>c. c = 0x20) cs))
                 \<subseteq> set (dropWhile (\<lambda>c. c = 0x20) cs)"
      using 1 by blast
    have b: "set (re_sub m_spaces [0x20] cs) \<subseteq> set cs"
      using 1 Cons by simp
    have c: "set (dropWhile (\<lambda>c. c = (0x20::nat)) cs) \<subseteq> set cs"
      by (auto dest: set_dropWhileD)
    from a b c show ?thesis
      unfolding Cons collapse_Cons by auto
  qed
qed

lemma hd_collapse:
  "s \<noteq> [] \<Longrightarrow> re_sub m_spaces [0x20] s \<noteq> [] \<and> hd (re_sub m_spaces [0x20] s) = hd s"
  by (cases s) (simp_all add: collapse_Cons)

lemma no_double_space_collapse: "no_double_space (re_sub m_spaces [0x20] s)"
proof (induction s rule: length_induct)
  case (1 s)
  show ?case
  proof (cases s)
    case Nil
    then show ?thesis by (simp add: collapse_Nil)
  next
    case (Cons c cs)
    show ?thesis
    proof (cases "c = 0x20")
      case False
      have "no_double_space (re_sub m_spaces [0x20] cs)"
        using 1 Cons by simp
      moreover have "no_double_space (c # t) = no_double_space t" for t
        using False by (cases t) simp_all
      ultimately show ?thesis
        using False unfolding Cons collapse_Cons by simp
    next
      case True
      let ?r = "dropWhile (\<lambda>c. c = (0x20::nat)) cs"
      have "length ?r < length s"
        using Cons by (simp add: length_dropWhile_le le_imp_less_Suc)
      then have ih: "no_double_space (re_sub m_spaces [0x20] ?r)"
        using 1 by blast
      have "no_double_space (0x20 # re_sub m_spaces [0x20] ?r)"
      proof (cases ?r)
        case Nil
        show ?thesis unfolding Nil collapse_Nil by simp
      next
        case (Cons d ds)
        then have "d \<noteq> 0x20"
          using hd_dropWhile [of "\<lambda>c. c = (0x20::nat)" cs] by auto
        moreover obtain t where "re_sub m_spaces [0x20] ?r = d # t"
          using hd_collapse [of ?r] Cons by (cases "re_sub m_spaces [0x20] ?r") auto
        ultimately show ?thesis using ih by simp
      qed
      then show ?thesis
        using True unfolding Cons collapse_Cons by simp
    qed
  qed
qed

lemma no_double_space_append:
  "no_double_space (xs @ ys) \<longleftrightarrow>
     no_double_space xs \<and> no_double_space ys
     \<and> (xs = [] \<or> ys = [] \<or> last xs \<noteq> 0x20 \<or> hd ys \<noteq> 0x20)"
proof (induction xs rule: no_double_space.induct)
  case (1 a b cs)
  then show ?case by auto
next
  case "2_1"
  then show ?case by simp
next
  case "2_2"
  then show ?case by (cases ys) auto
qed

lemma no_double_space_rev: "no_double_space (rev s) = no_double_space s"
proof (induction s)
  case Nil
  then show ?case by simp
next
  case (Cons c cs)
  have "no_double_space (c # cs) \<longleftrightarrow> no_double_space cs \<and> (cs = [] \<or> c \<noteq> 0x20 \<or> hd cs \<noteq> 0x20)"
    by (cases cs) auto
  then show ?case
    using Cons by (auto simp: no_double_space_append last_rev)
qed

lemma no_double_space_dropWhile: "no_double_space s \<Longrightarrow> no_double_space (dropWhile P s)"
proof -
  assume "no_double_space s"
  then have "no_double_space (takeWhile P s @ dropWhile P s)" by simp
  then show ?thesis unfolding no_double_space_append by blast
qed

lemma no_double_space_strip: "no_double_space s \<Longrightarrow> no_double_space (strip s)"
  by (simp add: strip_def no_double_space_rev no_double_space_dropWhile)

lemma set_strip: "set (strip s) \<subseteq> set s"
  by (auto simp: strip_def dest!: set_dropWhileD)

lemma trimmed_strip: "trimmed (strip s)"
proof (cases "strip s = []")
  case True
  then show ?thesis by (simp add: trimmed_def)
next
  case False
  define t where "t = dropWhile is_space s"
  define d where "d = dropWhile is_space (rev t)"
  define w where "w = takeWhile is_space (rev t)"
  have st: "strip s = rev d"
    by (simp add: strip_def d_def t_def)
  have d: "d \<noteq> []"
    using False st by simp
  then have l: "\<not> is_space (hd d)"
    unfolding d_def by (rule hd_dropWhile)
  have "rev t = w @ d"
    by (simp add: w_def d_def)
  then have "rev (rev t) = rev (w @ d)"
    by (rule arg_cong)
  then have t: "t = rev d @ rev w"
    by simp
  then have "t \<noteq> []"
    using d by simp
  then have "\<not> is_space (hd t)"
    unfolding t_def by (rule hd_dropWhile)
  moreover have "hd t = hd (rev d)"
    using d t by simp
  ultimately have h: "\<not> is_space (hd (strip s))"
    by (simp add: st)
  have "last (strip s) = hd d"
    using d by (simp add: st last_rev)
  with l h False show ?thesis
    by (simp add: trimmed_def)
qed

lemma set_collapse_strip: "set (collapse_strip s) \<subseteq> set s"
  using set_strip set_collapse unfolding collapse_strip_def by blast

lemma no_double_space_collapse_strip: "no_double_space (collapse_strip s)"
  by (simp add: collapse_strip_def no_double_space_strip no_double_space_collapse)

lemma trimmed_collapse_strip: "trimmed (collapse_strip s)"
  by (simp add: collapse_strip_def trimmed_strip)

section \<open>Properties of the Alphabet Projector\<close>

text \<open>
  C3. For every string and every alphabet, each character of \<open>process_x_text\<close> is in the
  alphabet or is the marker \<open>oov_char\<close>, each character of \<open>process_y_text\<close> is in the
  alphabet or is a space; both results have no two spaces in a row and no whitespace at
  either end.
\<close>

theorem projection_closed:
  "(\<forall>c \<in> set (process_x_text s A). c \<in> set A \<or> c = oov_char)
   \<and> (\<forall>c \<in> set (process_y_text s A). c \<in> set A \<or> c = 0x20)
   \<and> no_double_space (process_x_text s A) \<and> trimmed (process_x_text s A)
   \<and> no_double_space (process_y_text s A) \<and> trimmed (process_y_text s A)"
proof -
  have "set (process_x_text s A) \<subseteq> set (map (\<lambda>c. if c \<in> set A then c else oov_char) s)"
    unfolding process_x_text_def by (rule set_collapse_strip)
  then have x: "\<forall>c \<in> set (process_x_text s A). c \<in> set A \<or> c = oov_char"
    by auto
  have "set (process_y_text s A) \<subseteq> set (map (\<lambda>c. if c \<in> set A then c else 0x20) s)"
    unfolding process_y_text_def by (rule set_collapse_strip)
  then have y: "\<forall>c \<in> set (process_y_text s A). c \<in> set A \<or> c = 0x20"
    by auto
  show ?thesis
    using x y
    by (simp add: process_x_text_def process_y_text_def no_double_space_collapse_strip
        trimmed_collapse_strip)
qed

theorem projection_closed_witness:
  "process_x_text (ascii ''  a  B c  '' @ [9]) (ascii ''abc '')
     = ascii ''a '' @ [oov_char] @ ascii '' c '' @ [oov_char]
   \<and> process_y_text (ascii ''  a  B c  '' @ [9]) (ascii ''abc '') = ascii ''a c''
   \<and> no_double_space (process_x_text (ascii ''  a  B c  '' @ [9]) (ascii ''abc ''))
   \<and> trimmed (process_x_text (ascii ''  a  B c  '' @ [9]) (ascii ''abc ''))
   \<and> no_double_space (process_y_text (ascii ''  a  B c  '' @ [9]) (ascii ''abc ''))
   \<and> trimmed (process_y_text (ascii ''  a  B c  '' @ [9]) (ascii ''abc ''))"
proof -
  have "process_x_text (ascii ''  a  B c  '' @ [9]) (ascii ''abc '')
     = ascii ''a '' @ [oov_char] @ ascii '' c '' @ [oov_char]"
    by (simp add: text_eval)
  moreover have "process_y_text (ascii ''  a  B c  '' @ [9]) (ascii ''abc '') = ascii ''a c''"
    by (simp add: text_eval)
  ultimately show ?thesis
    using projection_closed [of "ascii ''  a  B c  '' @ [9]" "ascii ''abc ''"] by blast
qed

section \<open>Properties of the Vectorizer\<close>

lemma fold_char2idx_Some:
  "fold (\<lambda>(i, c) m. m(c \<mapsto> int i)) (enumerate n xs) m0 c = Some k \<Longrightarrow>
     m0 c = Some k \<or> (int n \<le> k \<and> k < int (n + length xs) \<and> xs ! (nat k - n) = c)"
proof (induction xs arbitrary: n m0)
  case Nil
  then show ?case by simp
next
  case (Cons x xs)
  from Cons.prems have "fold (\<lambda>(i, c) m. m(c \<mapsto> int i)) (enumerate (Suc n) xs) (m0(x \<mapsto> int n)) c = Some k"
    by (simp del: fun_upd_apply)
  from Cons.IH [OF this]
  consider "(m0(x \<mapsto> int n)) c = Some k"
    | "int (Suc n) \<le> k" "k < int (Suc n + length xs)" "xs ! (nat k - Suc n) = c"
    by blast
  then show ?case
  proof cases
    case 1
    then show ?thesis by (auto split: if_splits)
  next
    case 2
    then have "nat k - n = Suc (nat k - Suc n)" by linarith
    with 2 show ?thesis by simp
  qed
qed


lemma mk_char2idx_Some:
  "mk_char2idx A c = Some k \<Longrightarrow> 1 \<le> k \<and> k \<le> int (length A) \<and> A ! (nat k - 1) = c"
  using fold_char2idx_Some [of 1 A Map.empty c k] by (auto simp: mk_char2idx_def)



lemma length_vectorize_tweet: "length (vectorize_tweet s M) = length s"
  by (simp add: vectorize_tweet_def)

text \<open>
  C4. For every string and every map, \<open>vectorize_tweet\<close> returns one value per character:
  the index the map assigns to the character, and 0 for a character the map does not
  know. In the index built over an alphabet, every assigned index is at least 1 (and at
  most the length of the alphabet).
\<close>

theorem vectorize_tweet_values:
  "length (vectorize_tweet s M) = length s
   \<and> (\<forall>i < length s. vectorize_tweet s M ! i = (case M (s ! i) of Some k \<Rightarrow> k | None \<Rightarrow> 0))
   \<and> (\<forall>c k. mk_char2idx A c = Some k \<longrightarrow> 1 \<le> k \<and> k \<le> int (length A))"
  using mk_char2idx_Some [of A] by (simp add: vectorize_tweet_def)

theorem vectorize_tweet_values_witness:
  "vectorize_tweet (ascii ''abz'') (mk_char2idx (ascii ''ab'')) = [1, 2, 0]
   \<and> length (vectorize_tweet (ascii ''abz'') (mk_char2idx (ascii ''ab''))) = length (ascii ''abz'')
   \<and> mk_char2idx (ascii ''ab'') 0x62 = Some 2 \<and> (1::int) \<le> 2 \<and> (2::int) \<le> int (length (ascii ''ab''))"
proof -
  have "vectorize_tweet (ascii ''abz'') (mk_char2idx (ascii ''ab'')) = [1, 2, 0]"
    by (simp add: vectorize_tweet_def mk_char2idx_def ascii_def enumerate_eq_zip upt_rec)
  moreover have "mk_char2idx (ascii ''ab'') 0x62 = Some 2"
    by (simp add: mk_char2idx_def ascii_def enumerate_eq_zip upt_rec)
  ultimately show ?thesis
    using vectorize_tweet_values [of "ascii ''abz''" "mk_char2idx (ascii ''ab'')" "ascii ''ab''"]
    by blast
qed

section \<open>Properties of the padded matrices\<close>

lemma fold_longest:
  "fold (\<lambda>x best. if length best < length x then x else best) rs r \<in> set (r # rs)
   \<and> (\<forall>x \<in> set (r # rs).
         length x \<le> length (fold (\<lambda>x best. if length best < length x then x else best) rs r))"
proof (induction rs arbitrary: r)
  case Nil
  then show ?case by simp
next
  case (Cons a rs)
  show ?case
    using Cons.IH [of "if length r < length a then a else r"]
    by (auto split: if_splits)
qed

lemma max_key_len_Inr:
  assumes "rs \<noteq> []"
  shows "\<exists>m. max_key_len rs = Inr m \<and> length m = Max (set (map length rs))"
proof -
  obtain r rs' where rs: "rs = r # rs'"
    using assms by (cases rs) auto
  let ?m = "fold (\<lambda>x best. if length best < length x then x else best) rs' r"
  have m: "?m \<in> set rs" "\<forall>x \<in> set rs. length x \<le> length ?m"
    using fold_longest [of rs' r] rs by auto
  have "Max (set (map length rs)) = length ?m"
  proof (rule Max_eqI)
    show "finite (set (map length rs))" by simp
    show "y \<le> length ?m" if "y \<in> set (map length rs)" for y
      using that m(2) by auto
    show "length ?m \<in> set (map length rs)"
      using m(1) by auto
  qed
  then show ?thesis
    by (simp add: rs)
qed

lemma map_err_left_pad:
  "\<forall>q \<in> set Q. length q \<le> w \<Longrightarrow>
     map_err (left_pad w) Q = Inr (map (\<lambda>q. replicate (w - length q) 0 @ q) Q)"
  by (induction Q) (simp_all add: left_pad_def)

lemma stack_Inr:
  "rows \<noteq> [] \<Longrightarrow> \<forall>r \<in> set rows. length r = w \<Longrightarrow> stack rows = Inr rows"
  by (cases rows) (auto simp: stack_def list_all_iff)

lemma Max_vectorized:
  assumes "df \<noteq> []"
  shows "max (Max (set (map length (map (\<lambda>(x, y). vectorize_tweet x M) df))))
             (Max (set (map length (map (\<lambda>(x, y). vectorize_tweet y M) df))))
         = max_text_length df"
proof -
  let ?X = "set (map (\<lambda>(x, y). length x) df)"
  let ?Y = "set (map (\<lambda>(x, y). length y) df)"
  have eqx: "map length (map (\<lambda>(x, y). vectorize_tweet x M) df) = map (\<lambda>(x, y). length x) df"
    by (simp add: length_vectorize_tweet case_prod_beta)
  have eqy: "map length (map (\<lambda>(x, y). vectorize_tweet y M) df) = map (\<lambda>(x, y). length y) df"
    by (simp add: length_vectorize_tweet case_prod_beta)
  have ne: "?X \<noteq> {}" "?Y \<noteq> {}"
    using assms by auto
  have "max_text_length df = max (Max ?X) (Max ?Y)"
  proof (rule antisym)
    show "max_text_length df \<le> max (Max ?X) (Max ?Y)"
      unfolding max_text_length_def
    proof (rule Max.boundedI)
      show "finite (set (map (\<lambda>(x, y). max (length x) (length y)) df))" by simp
      show "set (map (\<lambda>(x, y). max (length x) (length y)) df) \<noteq> {}" using assms by simp
      fix a
      assume "a \<in> set (map (\<lambda>(x, y). max (length x) (length y)) df)"
      then obtain x y where xy: "(x, y) \<in> set df" "a = max (length x) (length y)"
        by auto
      have "length x \<le> Max ?X"
        using xy(1) by (intro Max_ge) force+
      moreover have "length y \<le> Max ?Y"
        using xy(1) by (intro Max_ge) force+
      ultimately show "a \<le> max (Max ?X) (Max ?Y)"
        unfolding xy(2) by (rule max.mono)
    qed
  next
    have "Max ?X \<le> max_text_length df"
    proof (rule Max.boundedI)
      show "finite ?X" by simp
      show "?X \<noteq> {}" by (rule ne)
      fix a
      assume "a \<in> ?X"
      then obtain x y where xy: "(x, y) \<in> set df" "a = length x"
        by auto
      have "max (length x) (length y) \<le> max_text_length df"
        unfolding max_text_length_def using xy(1) by (intro Max_ge) force+
      then show "a \<le> max_text_length df"
        using xy(2) by simp
    qed
    moreover have "Max ?Y \<le> max_text_length df"
    proof (rule Max.boundedI)
      show "finite ?Y" by simp
      show "?Y \<noteq> {}" by (rule ne)
      fix a
      assume "a \<in> ?Y"
      then obtain x y where xy: "(x, y) \<in> set df" "a = length y"
        by auto
      have "max (length x) (length y) \<le> max_text_length df"
        unfolding max_text_length_def using xy(1) by (intro Max_ge) force+
      then show "a \<le> max_text_length df"
        using xy(2) by simp
    qed
    ultimately show "max (Max ?X) (Max ?Y) \<le> max_text_length df"
      by simp
  qed
  then show ?thesis
    by (simp only: eqx eqy)
qed

lemma length_le_max_text_length:
  "(x, y) \<in> set df \<Longrightarrow> length x \<le> max_text_length df \<and> length y \<le> max_text_length df"
proof -
  assume xy: "(x, y) \<in> set df"
  have "max (length x) (length y) \<le> max_text_length df"
    unfolding max_text_length_def using xy by (intro Max_ge) force+
  then show ?thesis by simp
qed

lemma vectorize_dataset_Inr:
  assumes "df \<noteq> []"
  shows "vectorize_dataset cast df M =
     Inr (map (\<lambda>(x, y). map cast (replicate (max_text_length df - length x) 0 @ vectorize_tweet x M)) df,
          map (\<lambda>(x, y). map cast (replicate (max_text_length df - length y) 0 @ vectorize_tweet y M)) df)"
proof -
  let ?Q = "map (\<lambda>(x, y). vectorize_tweet x M) df"
  let ?A = "map (\<lambda>(x, y). vectorize_tweet y M) df"
  let ?w = "max_text_length df"
  let ?pad = "\<lambda>q. replicate (?w - length q) (0::int) @ q"
  obtain mq where mq: "max_key_len ?Q = Inr mq" "length mq = Max (set (map length ?Q))"
    using max_key_len_Inr [of ?Q] assms by auto
  obtain ma where ma: "max_key_len ?A = Inr ma" "length ma = Max (set (map length ?A))"
    using max_key_len_Inr [of ?A] assms by auto
  have w: "max (length mq) (length ma) = ?w"
    unfolding mq(2) ma(2) using assms by (rule Max_vectorized)
  have leQ: "\<forall>q \<in> set ?Q. length q \<le> ?w"
    using length_le_max_text_length [of _ _ df] by (auto simp: length_vectorize_tweet)
  have leA: "\<forall>q \<in> set ?A. length q \<le> ?w"
    using length_le_max_text_length [of _ _ df] by (auto simp: length_vectorize_tweet)
  have pQ: "map_err (left_pad ?w) ?Q = Inr (map ?pad ?Q)"
    using leQ by (rule map_err_left_pad)
  have pA: "map_err (left_pad ?w) ?A = Inr (map ?pad ?A)"
    using leA by (rule map_err_left_pad)
  have sQ: "stack (map ?pad ?Q) = Inr (map ?pad ?Q)"
  proof (rule stack_Inr)
    show "map ?pad ?Q \<noteq> []" using assms by simp
    show "\<forall>r \<in> set (map ?pad ?Q). length r = ?w" using leQ by auto
  qed
  have sA: "stack (map ?pad ?A) = Inr (map ?pad ?A)"
  proof (rule stack_Inr)
    show "map ?pad ?A \<noteq> []" using assms by simp
    show "\<forall>r \<in> set (map ?pad ?A). length r = ?w" using leA by auto
  qed
  have "vectorize_dataset cast df M = Inr (map (map cast) (map ?pad ?Q), map (map cast) (map ?pad ?A))"
    by (simp only: vectorize_dataset_def Let_def mq(1) ma(1) sum.case w pQ pA sQ sA)
  then show ?thesis
    by (simp add: case_prod_beta length_vectorize_tweet comp_def)
qed

text \<open>
  C5. On a table with at least one row, \<open>vectorize_dataset\<close> returns two matrices with
  one row per row of the table. Every row of both has the width \<open>max_text_length\<close>, the
  one maximum over the texts of both columns. A row begins with the zeros of the padding,
  as many as its text is shorter than the width, and ends with the vectorized text,
  unchanged (each entry converted to the element type of the matrix).
\<close>

theorem vectorize_dataset_padding:
  assumes "df \<noteq> []"
  shows "\<exists>Q A. vectorize_dataset cast df M = Inr (Q, A)
     \<and> length Q = length df \<and> length A = length df
     \<and> (\<forall>i < length df.
           length (Q ! i) = max_text_length df \<and> length (A ! i) = max_text_length df
         \<and> take (max_text_length df - length (fst (df ! i))) (Q ! i)
             = replicate (max_text_length df - length (fst (df ! i))) (cast 0)
         \<and> drop (max_text_length df - length (fst (df ! i))) (Q ! i)
             = map cast (vectorize_tweet (fst (df ! i)) M)
         \<and> take (max_text_length df - length (snd (df ! i))) (A ! i)
             = replicate (max_text_length df - length (snd (df ! i))) (cast 0)
         \<and> drop (max_text_length df - length (snd (df ! i))) (A ! i)
             = map cast (vectorize_tweet (snd (df ! i)) M))"
proof -
  let ?w = "max_text_length df"
  let ?Q = "map (\<lambda>(x, y). map cast (replicate (?w - length x) 0 @ vectorize_tweet x M)) df"
  let ?A = "map (\<lambda>(x, y). map cast (replicate (?w - length y) 0 @ vectorize_tweet y M)) df"
  have r: "vectorize_dataset cast df M = Inr (?Q, ?A)"
    using assms by (rule vectorize_dataset_Inr)
  have rows: "length (?Q ! i) = ?w \<and> length (?A ! i) = ?w
         \<and> take (?w - length (fst (df ! i))) (?Q ! i) = replicate (?w - length (fst (df ! i))) (cast 0)
         \<and> drop (?w - length (fst (df ! i))) (?Q ! i) = map cast (vectorize_tweet (fst (df ! i)) M)
         \<and> take (?w - length (snd (df ! i))) (?A ! i) = replicate (?w - length (snd (df ! i))) (cast 0)
         \<and> drop (?w - length (snd (df ! i))) (?A ! i) = map cast (vectorize_tweet (snd (df ! i)) M)"
    if i: "i < length df" for i
  proof -
    obtain x y where xy: "df ! i = (x, y)" by (cases "df ! i")
    then have "(x, y) \<in> set df" using i by (metis nth_mem)
    then have le: "length x \<le> ?w" "length y \<le> ?w"
      using length_le_max_text_length by blast+
    show ?thesis
      using i le by (simp add: xy length_vectorize_tweet)
  qed
  show ?thesis
    using r rows by (intro exI [of _ ?Q] exI [of _ ?A]) simp
qed

theorem vectorize_dataset_padding_witness:
  "[(ascii ''ab'', ascii ''abc0''), (ascii ''a?'', ascii ''a'')] \<noteq> []
   \<and> vectorize_dataset (\<lambda>i. i) [(ascii ''ab'', ascii ''abc0''), (ascii ''a?'', ascii ''a'')]
        (mk_char2idx (ascii ''0abc''))
     = Inr ([[0, 0, 2, 3], [0, 0, 2, 0]], [[2, 3, 4, 1], [0, 0, 0, 2]])
   \<and> max_text_length [(ascii ''ab'', ascii ''abc0''), (ascii ''a?'', ascii ''a'')] = 4
   \<and> (\<exists>Q A. vectorize_dataset (\<lambda>i. i) [(ascii ''ab'', ascii ''abc0''), (ascii ''a?'', ascii ''a'')]
               (mk_char2idx (ascii ''0abc'')) = Inr (Q, A)
           \<and> length Q = 2 \<and> length A = 2)"
proof -
  have ne: "[(ascii ''ab'', ascii ''abc0''), (ascii ''a?'', ascii ''a'')] \<noteq> []"
    by simp
  have v: "vectorize_dataset (\<lambda>i. i) [(ascii ''ab'', ascii ''abc0''), (ascii ''a?'', ascii ''a'')]
        (mk_char2idx (ascii ''0abc''))
     = Inr ([[0, 0, 2, 3], [0, 0, 2, 0]], [[2, 3, 4, 1], [0, 0, 0, 2]])"
    by (simp add: vectorize_dataset_def vectorize_tweet_def mk_char2idx_def ascii_def
        enumerate_eq_zip upt_rec left_pad_def stack_def)
  have m: "max_text_length [(ascii ''ab'', ascii ''abc0''), (ascii ''a?'', ascii ''a'')] = 4"
    by (simp add: max_text_length_def ascii_def)
  from vectorize_dataset_padding [OF ne, of "\<lambda>i. i" "mk_char2idx (ascii ''0abc'')"]
  obtain Q A where "vectorize_dataset (\<lambda>i. i) [(ascii ''ab'', ascii ''abc0''), (ascii ''a?'', ascii ''a'')]
               (mk_char2idx (ascii ''0abc'')) = Inr (Q, A)" "length Q = 2" "length A = 2"
    by auto
  then show ?thesis
    using ne v m by blast
qed

section \<open>Properties of the Pair Reconstructor\<close>

lemma paired_messages_props:
  "(q, a) \<in> set (paired_messages df) \<Longrightarrow>
     q \<in> set df \<and> a \<in> set df \<and> author_id a = ascii ''AmazonHelp'' \<and> inbound q
     \<and> in_response_to_tweet_id q = None \<and> in_response_to_tweet_id a = Some (tweet_id q)"
  by (auto simp: paired_messages_def merge_replies_def starters_def)

lemma organize_QA_dataframe_origin:
  "e \<in> set (organize_QA_dataframe lower detect ualnum df alphabet) \<Longrightarrow>
     \<exists>(q, a) \<in> set (paired_messages df).
        e = (process_x_text (clean_text ualnum (lower (text_col q))) alphabet,
             process_y_text (clean_text ualnum (lower (text_col a))) alphabet)"
  by (fastforce simp: organize_QA_dataframe_def Let_def)

lemma example_paired: "paired_messages example_table = [(example_question, example_answer)]"
  by (simp add: paired_messages_def merge_replies_def starters_def example_table_def
      example_question_def example_answer_def ascii_def)

text \<open>
  C8. Every pair of messages that \<open>organize_QA_dataframe\<close> keeps after the join and the
  filter on the company consists of two messages of the table, the second answering the
  first; the answer's author is \<open>AmazonHelp\<close>, the question is inbound and answers no
  message. Every exchange of the output is made from the texts of such a pair.
\<close>

theorem exchanges_are_pairs:
  "(\<forall>(q, a) \<in> set (paired_messages df).
       q \<in> set df \<and> a \<in> set df \<and> in_response_to_tweet_id a = Some (tweet_id q)
     \<and> author_id a = ascii ''AmazonHelp'' \<and> inbound q \<and> in_response_to_tweet_id q = None)
   \<and> (\<forall>e \<in> set (organize_QA_dataframe lower detect ualnum df alphabet).
        \<exists>(q, a) \<in> set (paired_messages df).
          e = (process_x_text (clean_text ualnum (lower (text_col q))) alphabet,
               process_y_text (clean_text ualnum (lower (text_col a))) alphabet))"
  using paired_messages_props [of _ _ df]
    organize_QA_dataframe_origin [of _ lower detect ualnum df alphabet]
  by blast

theorem exchanges_are_pairs_witness:
  "paired_messages example_table = [(example_question, example_answer)]
   \<and> example_question \<in> set example_table \<and> example_answer \<in> set example_table
   \<and> in_response_to_tweet_id example_answer = Some (tweet_id example_question)
   \<and> author_id example_answer = ascii ''AmazonHelp'' \<and> inbound example_question
   \<and> in_response_to_tweet_id example_question = None"
proof -
  have "(example_question, example_answer) \<in> set (paired_messages example_table)"
    by (simp add: example_paired)
  then show ?thesis
    using exchanges_are_pairs [of example_table ascii_lower detect_en ascii_alnum generate_alphabet]
      example_paired
    by blast
qed

section \<open>Properties of the language check\<close>

text \<open>
  C9. When the detector raises on the text it is given, \<open>check_language\<close> returns the tag
  \<open>en\<close>. Its result is always a tag: no error of the detector reaches the caller.
\<close>

theorem check_language_fail_open:
  "detect (langdetect_input tweet) = Inl e \<Longrightarrow> check_language detect tweet = ascii ''en''"
  by (simp add: check_language_def)

theorem check_language_fail_open_witness:
  "detect_fails (langdetect_input (ascii ''my fire tv stick'')) = Inl ()
   \<and> check_language detect_fails (ascii ''my fire tv stick'') = ascii ''en''"
proof -
  have f: "detect_fails (langdetect_input (ascii ''my fire tv stick'')) = Inl ()"
    by (simp add: detect_fails_def)
  show ?thesis
    using f check_language_fail_open [of detect_fails "ascii ''my fire tv stick''" "()"] by simp
qed

section \<open>Properties of the Dataset Assembler\<close>

lemma vectorize_dataset_empty: "vectorize_dataset cast [] M = Inl ValueError"
  by (simp add: vectorize_dataset_def)

text \<open>
  C10. When no exchange is left after the filters, \<open>get_amazon_dataset\<close> does not return
  matrices: the run ends with the \<open>ValueError\<close> that \<open>max\<close> raises on the empty list in
  \<open>vectorize_dataset\<close>.
\<close>

theorem empty_dataset_aborts:
  "organize_QA_dataframe lower detect ualnum df generate_alphabet = [] \<Longrightarrow>
     get_amazon_dataset lower detect ualnum shuffle cast params df = Inl ValueError"
  by (simp add: get_amazon_dataset_def Let_def vectorize_dataset_empty)

theorem empty_dataset_aborts_witness:
  "organize_QA_dataframe ascii_lower detect_en ascii_alnum [example_question] generate_alphabet = []
   \<and> get_amazon_dataset ascii_lower detect_en ascii_alnum (\<lambda>s n. [0..<n]) real_of_int
       \<lparr>val_test_size = (1 / 10, 1 / 10), seed = ()\<rparr> [example_question] = Inl ValueError"
proof -
  have e: "organize_QA_dataframe ascii_lower detect_en ascii_alnum [example_question] generate_alphabet = []"
    by (simp add: organize_QA_dataframe_def paired_messages_def merge_replies_def starters_def
        example_question_def)
  show ?thesis
    using e empty_dataset_aborts [of ascii_lower detect_en ascii_alnum "[example_question]"
        "\<lambda>s n. [0..<n]" real_of_int "\<lparr>val_test_size = (1 / 10, 1 / 10), seed = ()\<rparr>"]
    by simp
qed

section \<open>The markers and the character index\<close>














section \<open>Rounding to the nearest float\<close>

declare bits.simps [simp del]

lemma bits_nonneg: "0 \<le> bits n"
proof (induction n rule: bits.induct)
  case (1 n)
  then show ?case by (subst bits.simps) simp
qed

lemma bits_pos: "0 < n \<Longrightarrow> 1 \<le> bits n"
  using bits_nonneg [of "n div 2"] by (subst bits.simps) simp

lemma bits_bounds: "0 < n \<Longrightarrow> 2 ^ nat (bits n - 1) \<le> n \<and> n < 2 ^ nat (bits n)"
proof (induction n rule: bits.induct)
  case (1 n)
  show ?case
  proof (cases "n = 1")
    case True
    have "bits 1 = 1"
      by (simp add: bits.simps [of 1] bits.simps [of 0])
    then show ?thesis using True by simp
  next
    case False
    with 1(2) have h: "0 < n div 2" by simp
    then have ih: "2 ^ nat (bits (n div 2) - 1) \<le> n div 2 \<and> n div 2 < 2 ^ nat (bits (n div 2))"
      using 1 by simp
    have b: "bits n = 1 + bits (n div 2)"
      using 1(2) by (subst bits.simps) simp
    have p: "1 \<le> bits (n div 2)" using h by (rule bits_pos)
    then have e1: "nat (bits n - 1) = Suc (nat (bits (n div 2) - 1))"
      unfolding b by simp
    have e2: "nat (bits n) = Suc (nat (bits (n div 2)))"
      unfolding b using p by simp
    have "2 * 2 ^ nat (bits (n div 2) - 1) \<le> n"
      using ih by linarith
    moreover have "n < 2 * 2 ^ nat (bits (n div 2))"
      using ih by linarith
    ultimately show ?thesis
      unfolding e1 e2 by simp
  qed
qed

lemma rat_bits_bounds:
  assumes "1 \<le> (x::rat)"
  shows "2 powi (bits \<lfloor>x\<rfloor> - 1) \<le> x \<and> x < 2 powi (bits \<lfloor>x\<rfloor>)"
proof -
  let ?n = "\<lfloor>x\<rfloor>"
  have n: "0 < ?n" using assms by simp
  from bits_bounds [OF n] have b: "2 ^ nat (bits ?n - 1) \<le> ?n" "?n < 2 ^ nat (bits ?n)"
    by auto
  have p: "1 \<le> bits ?n" using n by (rule bits_pos)
  have "(of_int (2 ^ nat (bits ?n - 1)) :: rat) \<le> of_int ?n"
    using b(1) by (simp only: of_int_le_iff)
  also have "\<dots> \<le> x" by simp
  finally have lo: "2 powi (bits ?n - 1) \<le> x"
    using p by (simp add: power_int_def)
  have "?n + 1 \<le> 2 ^ nat (bits ?n)" using b(2) by simp
  then have "(of_int (?n + 1) :: rat) \<le> of_int (2 ^ nat (bits ?n))"
    by (simp only: of_int_le_iff)
  moreover have "x < of_int (?n + 1)" by linarith
  ultimately have "x < of_int (2 ^ nat (bits ?n))" by linarith
  then have hi: "x < 2 powi (bits ?n)"
    using p by (simp add: power_int_def)
  from lo hi show ?thesis by simp
qed

lemma expo_bounds:
  assumes "0 < x"
  shows "2 powi (expo x) \<le> x \<and> x < 2 powi (expo x + 1)"
proof (cases "1 \<le> x")
  case True
  then show ?thesis
    using rat_bits_bounds [OF True] by (simp add: expo_def)
next
  case False
  define k where "k = bits \<lfloor>1 / x\<rfloor> - 1"
  have "1 \<le> 1 / x" using assms False by simp
  from rat_bits_bounds [OF this] have b: "2 powi k \<le> 1 / x" "1 / x < 2 powi (k + 1)"
    by (simp_all add: k_def)
  have pk: "(0::rat) < 2 powi k" "(0::rat) < 2 powi (k + 1)" by simp_all
  have up: "x \<le> 2 powi (- k)"
  proof -
    have "x \<le> 1 / 2 powi k"
      using b(1) assms pk(1) by (simp add: field_simps)
    then show ?thesis by (simp add: power_int_minus field_simps)
  qed
  have lo: "2 powi (- k - 1) < x"
  proof -
    have "1 / 2 powi (k + 1) < x"
      using b(2) assms pk(2) by (simp add: field_simps)
    moreover have "(2::rat) powi (- k - 1) = 1 / 2 powi (k + 1)"
    proof -
      have "- k - 1 = - (k + 1)" by simp
      then have "(2::rat) powi (- k - 1) = 2 powi (- (k + 1))" by (rule arg_cong)
      also have "\<dots> = inverse (2 powi (k + 1))" by (rule power_int_minus)
      finally show ?thesis by (simp only: inverse_eq_divide)
    qed
    ultimately show ?thesis by simp
  qed
  show ?thesis
  proof (cases "2 powi (- k) \<le> x")
    case True
    then have e: "expo x = - k"
      using False by (simp add: expo_def k_def Let_def)
    have "x = 2 powi (- k)" using True up by simp
    moreover have "(2::rat) powi (- k) < 2 powi (- k + 1)"
      by (rule power_int_strict_increasing) simp_all
    ultimately show ?thesis unfolding e by simp
  next
    case F: False
    then have e: "expo x = - k - 1"
      using False by (simp add: expo_def k_def Let_def)
    show ?thesis unfolding e using lo F by simp
  qed
qed

lemma rne_of_int: "rne (of_int n) = n"
  by (simp add: rne_def)

lemma rne_range: "\<lfloor>r\<rfloor> \<le> rne r \<and> rne r \<le> \<lfloor>r\<rfloor> + 1"
  by (simp add: rne_def Let_def)

lemma rne_mono:
  assumes "r \<le> s"
  shows "rne r \<le> rne s"
proof (cases "\<lfloor>r\<rfloor> = \<lfloor>s\<rfloor>")
  case False
  have "\<lfloor>r\<rfloor> \<le> \<lfloor>s\<rfloor>" using assms by (rule floor_mono)
  with False have "\<lfloor>r\<rfloor> + 1 \<le> \<lfloor>s\<rfloor>" by simp
  then show ?thesis
    using rne_range [of r] rne_range [of s] by linarith
next
  case True
  have "r - of_int \<lfloor>r\<rfloor> \<le> s - of_int \<lfloor>s\<rfloor>"
    using assms True by simp
  then show ?thesis
    using True by (auto simp: rne_def Let_def)
qed

lemma rne_le: "r \<le> of_int n \<Longrightarrow> rne r \<le> n"
  using rne_mono [of r "of_int n"] by (simp add: rne_of_int)

lemma rne_ge: "of_int n \<le> r \<Longrightarrow> n \<le> rne r"
  using rne_mono [of "of_int n" r] by (simp add: rne_of_int)

lemma ulp_pos: "0 < ulp x"
  by (simp add: ulp_def)

lemma fl_pos_eq: "0 < x \<Longrightarrow> fl x = of_int (rne (x / ulp x)) * ulp x"
  by (simp add: fl_def)

lemma fl_zero: "fl 0 = 0"
  by (simp add: fl_def)

lemma fl_nonneg: "0 \<le> x \<Longrightarrow> 0 \<le> fl x"
proof (cases "x = 0")
  case True
  then show ?thesis by (simp add: fl_zero)
next
  case False
  assume "0 \<le> x"
  with False have x: "0 < x" by simp
  have "(of_int 0 :: rat) \<le> x / ulp x"
    using x ulp_pos [of x] by simp
  then have "0 \<le> rne (x / ulp x)" by (rule rne_ge)
  then show ?thesis
    using ulp_pos [of x] by (simp add: fl_pos_eq [OF x])
qed

lemma pow2_split: "(2::rat) powi (a + b) = 2 powi a * 2 powi b"
  by (rule power_int_add) simp

lemma pow2_shift53: "(2::rat) powi (e + 1) = 2 powi 53 * 2 powi (e - 52)"
proof -
  have "e + 1 = 53 + (e - 52)" by simp
  then have "(2::rat) powi (e + 1) = 2 powi (53 + (e - 52))" by (rule arg_cong)
  also have "\<dots> = 2 powi 53 * 2 powi (e - 52)" by (rule pow2_split)
  finally show ?thesis .
qed

lemma pow2_shift52: "(2::rat) powi e = 2 powi 52 * 2 powi (e - 52)"
proof -
  have "e = 52 + (e - 52)" by simp
  then have "(2::rat) powi e = 2 powi (52 + (e - 52))" by (rule arg_cong)
  also have "\<dots> = 2 powi 52 * 2 powi (e - 52)" by (rule pow2_split)
  finally show ?thesis .
qed

lemma fl_upper:
  assumes "0 < x"
  shows "fl x \<le> 2 powi (max (expo x) (- 1022) + 1)"
proof -
  define E where "E = max (expo x) (- 1022)"
  have u: "ulp x = 2 powi (E - 52)"
    using assms by (simp add: ulp_def E_def)
  have "x < 2 powi (expo x + 1)"
    using expo_bounds [OF assms] by simp
  also have "\<dots> \<le> 2 powi (E + 1)"
    by (rule power_int_increasing) (simp_all add: E_def)
  finally have "x < 2 powi (E + 1)" .
  then have "x < 2 powi 53 * 2 powi (E - 52)"
    by (simp only: pow2_shift53 [of E])
  then have "x / ulp x < 2 powi 53"
    unfolding u by (simp add: field_simps)
  then have "x / ulp x \<le> of_int (2 ^ 53)"
    by simp
  then have "rne (x / ulp x) \<le> 2 ^ 53"
    by (rule rne_le)
  then have "(of_int (rne (x / ulp x)) :: rat) \<le> of_int (2 ^ 53)"
    by (simp only: of_int_le_iff)
  then have "of_int (rne (x / ulp x)) * ulp x \<le> 2 powi 53 * ulp x"
    using ulp_pos [of x] by simp
  also have "\<dots> = 2 powi (E + 1)"
    unfolding u by (rule pow2_shift53 [symmetric])
  finally show ?thesis
    by (simp add: fl_pos_eq [OF assms] E_def)
qed

lemma fl_lower:
  assumes "0 < x" "- 1022 \<le> expo x"
  shows "2 powi (expo x) \<le> fl x"
proof -
  have u: "ulp x = 2 powi (expo x - 52)"
    using assms by (simp add: ulp_def max_def)
  have s: "(2::rat) powi (expo x) = 2 powi 52 * 2 powi (expo x - 52)"
    by (rule pow2_shift52)
  have "2 powi (expo x) \<le> x"
    using expo_bounds [OF assms(1)] by simp
  then have "2 powi 52 * 2 powi (expo x - 52) \<le> x"
    by (simp only: s [symmetric])
  then have "2 powi 52 \<le> x / ulp x"
    unfolding u by (simp add: field_simps)
  then have "of_int (2 ^ 52) \<le> x / ulp x"
    by simp
  then have "2 ^ 52 \<le> rne (x / ulp x)"
    by (rule rne_ge)
  then have "(of_int (2 ^ 52) :: rat) \<le> of_int (rne (x / ulp x))"
    by (simp only: of_int_le_iff)
  then have "2 powi 52 * ulp x \<le> of_int (rne (x / ulp x)) * ulp x"
    using ulp_pos [of x] by simp
  then have "2 powi 52 * 2 powi (expo x - 52) \<le> fl x"
    unfolding fl_pos_eq [OF assms(1)] u .
  then show ?thesis
    by (simp only: s [symmetric])
qed

lemma expo_mono:
  assumes "0 < x" "x \<le> y"
  shows "expo x \<le> expo y"
proof (rule ccontr)
  assume "\<not> expo x \<le> expo y"
  then have "expo y + 1 \<le> expo x" by simp
  then have "(2::rat) powi (expo y + 1) \<le> 2 powi (expo x)"
    by (rule power_int_increasing) simp
  moreover have "y < 2 powi (expo y + 1)"
    using expo_bounds [of y] assms by simp
  moreover have "2 powi (expo x) \<le> x"
    using expo_bounds [OF assms(1)] by simp
  ultimately show False using assms(2) by linarith
qed

lemma fl_mono_pos:
  assumes "0 < x" "x \<le> y"
  shows "fl x \<le> fl y"
proof -
  have y: "0 < y" using assms by simp
  define Ex where "Ex = max (expo x) (- 1022)"
  define Ey where "Ey = max (expo y) (- 1022)"
  have le: "Ex \<le> Ey"
    using expo_mono [OF assms] by (simp add: Ex_def Ey_def)
  show ?thesis
  proof (cases "Ex = Ey")
    case True
    then have u: "ulp x = ulp y"
      using assms y by (simp add: ulp_def Ex_def Ey_def)
    have "x / ulp y \<le> y / ulp y"
      using assms(2) ulp_pos [of y] by (simp add: divide_right_mono)
    then have "rne (x / ulp y) \<le> rne (y / ulp y)"
      by (rule rne_mono)
    then have "(of_int (rne (x / ulp y)) :: rat) \<le> of_int (rne (y / ulp y))"
      by (simp only: of_int_le_iff)
    then show ?thesis
      unfolding fl_pos_eq [OF assms(1)] fl_pos_eq [OF y] u
      using ulp_pos [of y] by simp
  next
    case False
    with le have lt: "Ex + 1 \<le> Ey" by simp
    then have ey: "Ey = expo y" "- 1022 \<le> expo y"
      by (simp_all add: Ex_def Ey_def max_def split: if_splits)
    have "fl x \<le> 2 powi (Ex + 1)"
      using fl_upper [OF assms(1)] by (simp add: Ex_def)
    also have "\<dots> \<le> 2 powi Ey"
      using lt by (rule power_int_increasing) simp
    also have "\<dots> \<le> fl y"
      unfolding ey(1) using y ey(2) by (rule fl_lower)
    finally show ?thesis .
  qed
qed

lemma fl_mono_nonneg:
  assumes "0 \<le> x" "x \<le> y"
  shows "fl x \<le> fl y"
proof (cases "x = 0")
  case True
  then show ?thesis
    using assms fl_nonneg [of y] by (simp add: fl_zero)
next
  case False
  then have "0 < x" using assms by simp
  then show ?thesis using assms(2) by (rule fl_mono_pos)
qed


lemma fl_one: "fl 1 = 1"
  by code_simp

lemma fl_tenth: "fl (1 / 10) = 3602879701896397 / 36028797018963968"
  by code_simp

lemma fl_hundred: "fl 100 = 100"
  by code_simp

lemma cutoffs_tenth:
  "py_int (fmul (fl 100) (fsub 1 (fadd (fl (1 / 10)) (fl (1 / 10))))) = 80"
  "py_int (fmul (fl 100) (fsub 1 (fl (1 / 10)))) = 90"
  by code_simp+
section \<open>Properties of the split\<close>

lemma py_int_nonneg: "0 \<le> x \<Longrightarrow> 0 \<le> py_int x"
  by (simp add: py_int_def)

lemma py_int_mono_nonneg: "0 \<le> x \<Longrightarrow> x \<le> y \<Longrightarrow> py_int x \<le> py_int y"
  by (simp add: py_int_def floor_mono)

lemma cutoffs_ordered:
  assumes "0 \<le> val_size" "0 \<le> test_size" "val_size + test_size \<le> 1" "fl test_size = test_size"
  shows "0 \<le> train_val_cutoff n val_size test_size
       \<and> train_val_cutoff n val_size test_size \<le> val_test_cutoff n test_size"
proof -
  define s where "s = fl (val_size + test_size)"
  define N where "N = fl (of_nat n)"
  have N: "0 \<le> N"
    unfolding N_def by (rule fl_nonneg) simp
  have "fl test_size \<le> s"
    unfolding s_def using assms(1,2) by (intro fl_mono_nonneg) simp_all
  then have t: "test_size \<le> s"
    by (simp only: assms(4))
  have "s \<le> fl 1"
    unfolding s_def using assms by (intro fl_mono_nonneg) simp_all
  then have s1: "s \<le> 1"
    by (simp only: fl_one)
  have d: "0 \<le> fl (1 - s)" "fl (1 - s) \<le> fl (1 - test_size)"
    using s1 t by (auto intro: fl_nonneg fl_mono_nonneg)
  have m: "0 \<le> N * fl (1 - s)" "N * fl (1 - s) \<le> N * fl (1 - test_size)"
    using N d by (simp_all add: mult_left_mono)
  have f: "0 \<le> fl (N * fl (1 - s))" "fl (N * fl (1 - s)) \<le> fl (N * fl (1 - test_size))"
    using m by (auto intro: fl_nonneg fl_mono_nonneg)
  have "0 \<le> py_int (fl (N * fl (1 - s)))"
    using f(1) by (rule py_int_nonneg)
  moreover have "py_int (fl (N * fl (1 - s))) \<le> py_int (fl (N * fl (1 - test_size)))"
    using f by (rule py_int_mono_nonneg)
  ultimately show ?thesis
    by (simp add: train_val_cutoff_def val_test_cutoff_def fmul_def fsub_def fadd_def s_def N_def)
qed

lemma slice_0: "0 \<le> a \<Longrightarrow> slice 0 a xs = take (nat a) xs"
  by (cases "nat a \<le> length xs") (simp_all add: slice_def slice_index_def min_def)

lemma slice_mid:
  "0 \<le> a \<Longrightarrow> a \<le> b \<Longrightarrow> slice a b xs = take (nat b - nat a) (drop (nat a) xs)"
  by (cases "nat a \<le> length xs"; cases "nat b \<le> length xs")
    (simp_all add: slice_def slice_index_def min_def Let_def)

lemma slice_from_eq: "0 \<le> b \<Longrightarrow> slice_from b xs = drop (nat b) xs"
  by (simp add: slice_from_def slice_index_def min_def)

lemma three_parts:
  "a \<le> b \<Longrightarrow> take a xs @ take (b - a) (drop a xs) @ drop b xs = xs"
proof -
  assume "a \<le> b"
  then have "drop b xs = drop (b - a) (drop a xs)" by simp
  then show ?thesis by (simp only: append_take_drop_id)
qed

lemma mset_shuffled:
  assumes "mset perm = mset [0..<length xs]"
  shows "mset (map (\<lambda>i. xs ! i) perm) = mset xs"
proof -
  have "mset (map (\<lambda>i. xs ! i) perm) = image_mset (\<lambda>i. xs ! i) (mset perm)"
    by simp
  also have "\<dots> = image_mset (\<lambda>i. xs ! i) (mset [0..<length xs])"
    by (simp only: assms)
  also have "\<dots> = mset (map (\<lambda>i. xs ! i) [0..<length xs])"
    by simp
  also have "\<dots> = mset xs"
    by (simp only: map_nth)
  finally show ?thesis .
qed

text \<open>
  C7, as the code has it. The cutoffs are computed in double precision, each operation
  rounded: \<open>train_val_cutoff\<close> and \<open>val_test_cutoff\<close>. For fractions that are not negative
  and sum to at most 1, and a shuffle that permutes the row indices, the cutoffs \<open>a \<le> b\<close>
  are not negative, the rows \<open>[0, a)\<close> of the shuffled matrices are the training part,
  the rows \<open>[a, b)\<close> the validation part and the rows from \<open>b\<close> on the test part; the three
  parts in a row are the shuffled matrix, so they hold every input row exactly once. For
  100 rows and the fractions 0.1 and 0.1 the parts have 80, 10 and 10 rows.
\<close>

theorem train_test_val_split_partition:
  assumes "length Q = length A"
    and "mset (shuffle sd (length Q)) = mset [0..<length Q]"
    and "0 \<le> val_size" and "0 \<le> test_size" and "val_size + test_size \<le> 1"
    and "fl test_size = test_size"
  shows "\<exists>Q_train A_train Q_val A_val Q_test A_test a b.
      train_test_val_split shuffle Q A val_size test_size sd
        = Inr (Q_train, A_train, Q_val, A_val, Q_test, A_test)
    \<and> a = nat (train_val_cutoff (length Q) val_size test_size)
    \<and> b = nat (val_test_cutoff (length Q) test_size)
    \<and> a \<le> b
    \<and> Q_train = take a (map (\<lambda>i. Q ! i) (shuffle sd (length Q)))
    \<and> Q_val = take (b - a) (drop a (map (\<lambda>i. Q ! i) (shuffle sd (length Q))))
    \<and> Q_test = drop b (map (\<lambda>i. Q ! i) (shuffle sd (length Q)))
    \<and> A_train = take a (map (\<lambda>i. A ! i) (shuffle sd (length Q)))
    \<and> A_val = take (b - a) (drop a (map (\<lambda>i. A ! i) (shuffle sd (length Q))))
    \<and> A_test = drop b (map (\<lambda>i. A ! i) (shuffle sd (length Q)))
    \<and> Q_train @ Q_val @ Q_test = map (\<lambda>i. Q ! i) (shuffle sd (length Q))
    \<and> A_train @ A_val @ A_test = map (\<lambda>i. A ! i) (shuffle sd (length Q))
    \<and> mset (Q_train @ Q_val @ Q_test) = mset Q
    \<and> mset (A_train @ A_val @ A_test) = mset A
    \<and> (length Q = 100 \<and> val_size = fl (1 / 10) \<and> test_size = fl (1 / 10) \<longrightarrow>
         length Q_train = 80 \<and> length Q_val = 10 \<and> length Q_test = 10
       \<and> length A_train = 80 \<and> length A_val = 10 \<and> length A_test = 10)"
proof -
  define perm where "perm = shuffle sd (length Q)"
  define Qs where "Qs = map (\<lambda>i. Q ! i) perm"
  define As where "As = map (\<lambda>i. A ! i) perm"
  define ca where "ca = train_val_cutoff (length Q) val_size test_size"
  define cb where "cb = val_test_cutoff (length Q) test_size"
  have lp: "length perm = length Q"
    using assms(2) unfolding perm_def by (metis size_mset length_upt diff_zero)
  have lq: "length Qs = length Q" "length As = length Q"
    by (simp_all add: Qs_def As_def lp)
  have c: "0 \<le> ca" "ca \<le> cb"
    using cutoffs_ordered [OF assms(3-6), of "length Q"] by (simp_all add: ca_def cb_def)
  then have cb0: "0 \<le> cb" by simp
  have ab: "nat ca \<le> nat cb" using c by simp
  have e: "(length Q \<noteq> length A) = False"
    using assms(1) by simp
  have "train_test_val_split shuffle Q A val_size test_size sd
      = Inr (slice 0 ca Qs, slice 0 ca As, slice ca cb Qs, slice ca cb As,
             slice_from cb Qs, slice_from cb As)"
    unfolding train_test_val_split_def Let_def e if_False length_map lp [unfolded perm_def]
      Qs_def As_def perm_def ca_def cb_def
    by (rule refl)
  then have r: "train_test_val_split shuffle Q A val_size test_size sd
      = Inr (take (nat ca) Qs, take (nat ca) As,
             take (nat cb - nat ca) (drop (nat ca) Qs), take (nat cb - nat ca) (drop (nat ca) As),
             drop (nat cb) Qs, drop (nat cb) As)"
    by (simp only: slice_0 [OF c(1)] slice_mid [OF c] slice_from_eq [OF cb0])
  have pQ: "take (nat ca) Qs @ take (nat cb - nat ca) (drop (nat ca) Qs) @ drop (nat cb) Qs = Qs"
    using ab by (rule three_parts)
  have pA: "take (nat ca) As @ take (nat cb - nat ca) (drop (nat ca) As) @ drop (nat cb) As = As"
    using ab by (rule three_parts)
  have mQ: "mset Qs = mset Q"
    unfolding Qs_def perm_def using assms(2) by (rule mset_shuffled)
  have mA: "mset As = mset A"
    unfolding As_def perm_def using assms(2) [unfolded assms(1)] unfolding assms(1)
    by (rule mset_shuffled)
  have inst: "length (take (nat ca) Qs) = 80 \<and> length (take (nat cb - nat ca) (drop (nat ca) Qs)) = 10
       \<and> length (drop (nat cb) Qs) = 10
       \<and> length (take (nat ca) As) = 80 \<and> length (take (nat cb - nat ca) (drop (nat ca) As)) = 10
       \<and> length (drop (nat cb) As) = 10"
    if h: "length Q = 100" "val_size = fl (1 / 10)" "test_size = fl (1 / 10)"
  proof -
    have "ca = 80" "cb = 90"
      using cutoffs_tenth
      by (simp_all add: ca_def cb_def train_val_cutoff_def val_test_cutoff_def h)
    then show ?thesis
      using lq h(1) by simp
  qed
  show ?thesis
    unfolding r
    apply (intro exI conjI)
                  apply (rule refl)
                 apply (rule refl)
                apply (rule refl)
    using ab pQ pA mQ mA inst
    by (simp_all add: Qs_def As_def perm_def ca_def cb_def)
qed

theorem train_test_val_split_partition_witness:
  "length [0..<100] = length (rev [0..<100])
   \<and> mset (rev [0..<length [0..<100]]) = mset [0..<length [0..<100]]
   \<and> 0 \<le> fl (1 / 10) \<and> fl (1 / 10) + fl (1 / 10) \<le> 1 \<and> fl (fl (1 / 10)) = fl (1 / 10)
   \<and> (\<exists>Q_train A_train Q_val A_val Q_test A_test.
         train_test_val_split (\<lambda>s n. rev [0..<n]) [0..<100] (rev [0..<100])
             (fl (1 / 10)) (fl (1 / 10)) ()
           = Inr (Q_train, A_train, Q_val, A_val, Q_test, A_test)
       \<and> length Q_train = 80 \<and> length Q_val = 10 \<and> length Q_test = 10
       \<and> length A_train = 80 \<and> length A_val = 10 \<and> length A_test = 10
       \<and> mset (Q_train @ Q_val @ Q_test) = mset [0..<100]
       \<and> mset (A_train @ A_val @ A_test) = mset (rev [0..<100]))"
proof -
  have h1: "length [0..<100] = length (rev [0..<100])"
    by simp
  have h2: "mset ((\<lambda>s n. rev [0..<n]) () (length [0..<100])) = mset [0..<length [0..<100]]"
    by simp
  have h3: "0 \<le> fl (1 / 10)"
    by (simp add: fl_tenth)
  have h5: "fl (1 / 10) + fl (1 / 10) \<le> 1"
    by (simp add: fl_tenth)
  have h6: "fl (fl (1 / 10)) = fl (1 / 10)"
    by code_simp
  have l: "length [0..<100] = 100"
    by simp
  from train_test_val_split_partition
    [of "[0..<100]" "rev [0..<100]" "\<lambda>s n. rev [0..<n]" "()" "fl (1 / 10)" "fl (1 / 10)",
      OF h1 h2 h3 h3 h5 h6]
  obtain Q_train A_train Q_val A_val Q_test A_test where
    r: "train_test_val_split (\<lambda>s n. rev [0..<n]) [0..<100] (rev [0..<100])
             (fl (1 / 10)) (fl (1 / 10)) ()
           = Inr (Q_train, A_train, Q_val, A_val, Q_test, A_test)"
    and m: "mset (Q_train @ Q_val @ Q_test) = mset [0..<100]"
      "mset (A_train @ A_val @ A_test) = mset (rev [0..<100])"
    and i: "length [0..<100] = 100 \<and> fl (1 / 10) = fl (1 / 10) \<and> fl (1 / 10) = fl (1 / 10) \<longrightarrow>
         length Q_train = 80 \<and> length Q_val = 10 \<and> length Q_test = 10
       \<and> length A_train = 80 \<and> length A_val = 10 \<and> length A_test = 10"
    by blast
  from i l have "length Q_train = 80 \<and> length Q_val = 10 \<and> length Q_test = 10
       \<and> length A_train = 80 \<and> length A_val = 10 \<and> length A_test = 10"
    by blast
  with r m have "\<exists>Q_train A_train Q_val A_val Q_test A_test.
         train_test_val_split (\<lambda>s n. rev [0..<n]) [0..<100] (rev [0..<100])
             (fl (1 / 10)) (fl (1 / 10)) ()
           = Inr (Q_train, A_train, Q_val, A_val, Q_test, A_test)
       \<and> length Q_train = 80 \<and> length Q_val = 10 \<and> length Q_test = 10
       \<and> length A_train = 80 \<and> length A_val = 10 \<and> length A_test = 10
       \<and> mset (Q_train @ Q_val @ Q_test) = mset [0..<100]
       \<and> mset (A_train @ A_val @ A_test) = mset (rev [0..<100])"
    by blast
  with h1 h2 h3 h5 h6 show ?thesis
    by simp
qed

text \<open>
  C7, as the specification has it, fails: the cutoff is not the floor of the exact
  product. With 10 rows and the fractions 0.2 and 0.4 the training part has 3 rows, and
  the floor of \<open>10 * (1 - 0.2 - 0.4)\<close> is 4; with the fractions 0.1 and 0.2 it has 7 rows,
  and the floor of the exact product of the two floats' values is 6.
\<close>

theorem cutoff_not_exact_floor:
  "train_val_cutoff 10 (fl (1 / 5)) (fl (2 / 5)) = 3
   \<and> \<lfloor>(10::rat) * (1 - 1 / 5 - 2 / 5)\<rfloor> = 4
   \<and> train_test_val_split (\<lambda>s n. [0..<n]) [0..<10] [0..<10] (fl (1 / 5)) (fl (2 / 5)) ()
       = Inr ([0, 1, 2], [0, 1, 2], [3, 4, 5], [3, 4, 5], [6, 7, 8, 9], [6, 7, 8, 9])
   \<and> train_val_cutoff 10 (fl (1 / 10)) (fl (1 / 5)) = 7
   \<and> \<lfloor>(10::rat) * (1 - fl (1 / 10) - fl (1 / 5))\<rfloor> = 6"
proof -
  have "train_val_cutoff 10 (fl (1 / 5)) (fl (2 / 5)) = 3"
    by code_simp
  moreover have "\<lfloor>(10::rat) * (1 - 1 / 5 - 2 / 5)\<rfloor> = 4"
    by simp
  moreover have "train_test_val_split (\<lambda>s n. [0..<n]) [0..<10] [0..<10] (fl (1 / 5)) (fl (2 / 5)) ()
       = Inr ([0, 1, 2], [0, 1, 2], [3, 4, 5], [3, 4, 5], [6, 7, 8, 9], [6, 7, 8, 9])"
    by code_simp
  moreover have "train_val_cutoff 10 (fl (1 / 10)) (fl (1 / 5)) = 7"
    by code_simp
  moreover have "\<lfloor>(10::rat) * (1 - fl (1 / 10) - fl (1 / 5))\<rfloor> = 6"
    by code_simp
  ultimately show ?thesis
    by blast
qed

section \<open>The steps of the Text Normalizer\<close>





















section \<open>The URL substitution\<close>











section \<open>Idempotence of the Text Normalizer\<close>











text \<open>
  Each of the four characters is excluded for a reason: a removal can put together what
  the next pass removes or replaces.
\<close>

lemma excluded_characters_needed:
  "clean_text ascii_alnum (ascii ''@@amazonhelpamazonhelp'') = ascii ''@amazonhelp''"
  "clean_text ascii_alnum (ascii ''@amazonhelp'') = []"
  "clean_text ascii_alnum (ascii ''(1(1/2)/2)'') = ascii ''(1/2)''"
  "clean_text ascii_alnum (ascii ''(1/2)'') = []"
  "clean_text ascii_alnum ([0x5C] @ ascii ''{1/2){'') = [0x5C, 0x7B]"
  "clean_text ascii_alnum [0x5C, 0x7B] = [0x5C, 0x28]"
  by (simp_all add: text_eval)

end
